theory Spec2Isabelle
  imports Main "HOL-Library.Sublist" "HOL-Library.Char_ord" "HOL-Library.List_Lexorder"
begin

section \<open>Data model of the tag analyzer\<close>

text \<open>
  The component works on the grid \<open>string[][]\<close> delivered by the CSV parser. A string is a
  list of characters, each read as one code unit below 256; the order on strings is the
  lexicographic order of the code units, which is what the default \<open>Array.prototype.sort\<close>
  uses. Rows may have any number of cells: reading \<open>row[j]\<close> past the end gives
  \<open>undefined\<close>, which is a value of its own here.
\<close>

type_synonym row = "string list"
type_synonym grid = "row list"

datatype jsval = Undefined | Str string

text \<open>\<open>row[j]\<close>: the cell, or \<open>undefined\<close> when the row has no cell at \<open>j\<close>.\<close>

definition cell :: "row \<Rightarrow> nat \<Rightarrow> jsval" where
  "cell r j = (if j < length r then Str (r ! j) else Undefined)"

text \<open>The only exception the component can raise: a method call on \<open>undefined\<close>.\<close>

datatype exn = TypeError

text \<open>The second parameter of \<open>getMismatchedTags\<close>.\<close>

datatype mode = Over | Under

text \<open>An element of the output of \<open>getMismatchedTags\<close>: the sentinel string or an array.\<close>

datatype entry = Sentinel | Tags "jsval list"

record AnalysisResults =
  data :: grid
  overtags :: "entry list"
  undertags :: "entry list"
  l1Tags :: "string list"

text \<open>The messages given to \<open>setError\<close>; the text of a caught exception is kept abstract.\<close>

datatype message = InvalidCsvFormat | ErrorProcessingFile exn

text \<open>The two state cells of the component, \<open>results\<close> and \<open>error\<close>.\<close>

record state =
  results :: "AnalysisResults option"
  error :: "message option"

section \<open>String primitives\<close>

text \<open>
  \<open>String.prototype.split\<close> with a non-empty separator cuts at the leftmost occurrences,
  which do not overlap; the empty string splits into the one empty token.
\<close>

fun splitOn :: "string \<Rightarrow> string \<Rightarrow> string list" where
  "splitOn sep [] = [[]]"
| "splitOn sep (c # cs) =
     (if sep \<noteq> [] \<and> prefix sep (c # cs)
      then [] # splitOn sep (drop (length sep) (c # cs))
      else (case splitOn sep cs of [] \<Rightarrow> [[c]] | t # ts \<Rightarrow> (c # t) # ts))"

text \<open>\<open>s.split(sep)\<close>; the empty separator splits into the single code units.\<close>

definition js_split :: "string \<Rightarrow> string \<Rightarrow> string list" where
  "js_split s sep = (if sep = [] then map (\<lambda>c. [c]) s else splitOn sep s)"

text \<open>\<open>s.includes(sub)\<close>: \<open>sub\<close> occurs at some position of \<open>s\<close>.\<close>

fun js_includes :: "string \<Rightarrow> string \<Rightarrow> bool" where
  "js_includes [] sub = (sub = [])"
| "js_includes (c # cs) sub = (prefix sub (c # cs) \<or> js_includes cs sub)"

text \<open>\<open>ts.join(sep)\<close>.\<close>

fun join :: "string \<Rightarrow> string list \<Rightarrow> string" where
  "join sep [] = []"
| "join sep [t] = t"
| "join sep (t # u # us) = t @ sep @ join sep (u # us)"

text \<open>
  The white space and line terminators of ECMAScript among the code units below 256:
  TAB, LF, VT, FF, CR, SP and NBSP.
\<close>

definition isWhiteSpace :: "char \<Rightarrow> bool" where
  "isWhiteSpace c = ((of_char c :: nat) \<in> {9, 10, 11, 12, 13, 32, 160})"

text \<open>\<open>s.trim()\<close>.\<close>

definition trim :: "string \<Rightarrow> string" where
  "trim s = rev (dropWhile isWhiteSpace (rev (dropWhile isWhiteSpace s)))"

section \<open>getMismatchedTags\<close>

text \<open>The column pair chosen by \<open>type\<close>: \<open>[sourceIdx, destIdx]\<close>.\<close>

definition sourceIdx :: "mode \<Rightarrow> nat" where
  "sourceIdx type = (if type = Over then 3 else 2)"

definition destIdx :: "mode \<Rightarrow> nat" where
  "destIdx type = (if type = Over then 2 else 3)"

text \<open>
  The body of the loop for one row: the value pushed on \<open>output\<close>, or the exception of
  \<open>split\<close> called on \<open>undefined\<close> (the source column is split first).
\<close>

definition mismatchOfRow :: "mode \<Rightarrow> row \<Rightarrow> exn + entry" where
  "mismatchOfRow type r =
     (let sourceCol = cell r (sourceIdx type);
          destCol = cell r (destIdx type)
      in if sourceCol = Str [] then Inr (Tags [destCol])
         else if destCol = Str [] then Inr Sentinel
         else (case sourceCol of
                 Undefined \<Rightarrow> Inl TypeError
               | Str s \<Rightarrow>
                  (case destCol of
                     Undefined \<Rightarrow> Inl TypeError
                   | Str d \<Rightarrow>
                      (let sourceTags = js_split s '','';
                           destTags = js_split d '','';
                           filtered = filter (\<lambda>v. v \<notin> set sourceTags) destTags
                       in Inr (if length filtered > 0
                               then Tags [Str (join '','' filtered)]
                               else Sentinel)))))"

text \<open>The loop \<open>for (let i = 1; i < content.length; i++)\<close> with its \<open>output\<close>.\<close>

function mismatchLoop :: "grid \<Rightarrow> mode \<Rightarrow> nat \<Rightarrow> entry list \<Rightarrow> exn + entry list" where
  "mismatchLoop content type i output =
     (if i < length content
      then (case mismatchOfRow type (content ! i) of
              Inl e \<Rightarrow> Inl e
            | Inr x \<Rightarrow> mismatchLoop content type (i + 1) (output @ [x]))
      else Inr output)"
  by pat_completeness auto
termination
  by (relation "measure (\<lambda>(content, type, i, output). length content - i)") auto

definition getMismatchedTags :: "grid \<Rightarrow> mode \<Rightarrow> exn + entry list" where
  "getMismatchedTags content type = mismatchLoop content type 1 []"

section \<open>getL1Tags\<close>

text \<open>\<open>.filter(Boolean)\<close> on cells: \<open>undefined\<close> and the empty string are falsy.\<close>

fun filterBoolean :: "jsval list \<Rightarrow> string list" where
  "filterBoolean [] = []"
| "filterBoolean (Undefined # vs) = filterBoolean vs"
| "filterBoolean (Str s # vs) = (if s = [] then filterBoolean vs else s # filterBoolean vs)"

text \<open>\<open>allFlags\<close> of one row.\<close>

definition allFlags :: "row \<Rightarrow> string list" where
  "allFlags r = concat (map (\<lambda>flags. js_split flags '','') (filterBoolean [cell r 2, cell r 3]))"

text \<open>\<open>flag.split("::")[1].trim()\<close>; \<open>trim\<close> on a missing second element raises.\<close>

definition l1TagOf :: "string \<Rightarrow> exn + string" where
  "l1TagOf flag =
     (case js_split flag ''::'' of
        _ # t # _ \<Rightarrow> Inr (trim t)
      | _ \<Rightarrow> Inl TypeError)"

text \<open>\<open>Set.prototype.add\<close> on a set kept in insertion order.\<close>

definition setAdd :: "string \<Rightarrow> string list \<Rightarrow> string list" where
  "setAdd t uniqueTags = (if t \<in> set uniqueTags then uniqueTags else uniqueTags @ [t])"

text \<open>\<open>allFlags.forEach(...)\<close>, threading \<open>uniqueTags\<close>.\<close>

fun forEachFlag :: "string list \<Rightarrow> string list \<Rightarrow> exn + string list" where
  "forEachFlag [] uniqueTags = Inr uniqueTags"
| "forEachFlag (flag # flags) uniqueTags =
     (if js_includes flag ''::''
      then (case l1TagOf flag of
              Inl e \<Rightarrow> Inl e
            | Inr l1Tag \<Rightarrow> forEachFlag flags (setAdd l1Tag uniqueTags))
      else forEachFlag flags uniqueTags)"

function l1Loop :: "grid \<Rightarrow> nat \<Rightarrow> string list \<Rightarrow> exn + string list" where
  "l1Loop content i uniqueTags =
     (if i < length content
      then (case forEachFlag (allFlags (content ! i)) uniqueTags of
              Inl e \<Rightarrow> Inl e
            | Inr uniqueTags' \<Rightarrow> l1Loop content (i + 1) uniqueTags')
      else Inr uniqueTags)"
  by pat_completeness auto
termination
  by (relation "measure (\<lambda>(content, i, uniqueTags). length content - i)") auto

text \<open>\<open>Array.from(uniqueTags).sort()\<close>: the default sort, ascending by code units.\<close>

definition getL1Tags :: "grid \<Rightarrow> exn + string list" where
  "getL1Tags content =
     (case l1Loop content 1 [] of
        Inl e \<Rightarrow> Inl e
      | Inr uniqueTags \<Rightarrow> Inr (sort uniqueTags))"

section \<open>The parse callback of handleFileUpload\<close>

text \<open>The negation of the condition of the header check.\<close>

definition headersValid :: "row \<Rightarrow> bool" where
  "headersValid headers =
     (\<not> (length headers \<noteq> 5 \<or>
         cell headers 0 \<noteq> Str ''Task Link'' \<or>
         cell headers 1 \<noteq> Str ''Actioned Date'' \<or>
         cell headers 2 \<noteq> Str ''All Agent Flags'' \<or>
         cell headers 3 \<noteq> Str ''All QA Flags'' \<or>
         cell headers 4 \<noteq> Str ''Agent''))"

text \<open>\<open>data.filter(row => row[3] !== '')\<close>.\<close>

definition rowFilter :: "grid \<Rightarrow> grid" where
  "rowFilter dat = filter (\<lambda>row. cell row 3 \<noteq> Str []) dat"

text \<open>
  The body of the \<open>try\<close> block: \<open>Inl\<close> is a thrown exception, \<open>Inr\<close> the state at the
  end of the block. \<open>data[0]\<close> of an empty grid is \<open>undefined\<close>, and reading its
  \<open>length\<close> raises. No state cell is written before the last point that can raise.
\<close>

definition tryBlock :: "grid \<Rightarrow> state \<Rightarrow> exn + state" where
  "tryBlock dat st =
     (case dat of
        [] \<Rightarrow> Inl TypeError
      | headers # _ \<Rightarrow>
          if \<not> headersValid headers then Inr (st\<lparr>error := Some InvalidCsvFormat\<rparr>)
          else (let filteredContent = rowFilter dat in
                case getMismatchedTags filteredContent Over of
                  Inl e \<Rightarrow> Inl e
                | Inr ots \<Rightarrow>
                   (case getMismatchedTags filteredContent Under of
                      Inl e \<Rightarrow> Inl e
                    | Inr uts \<Rightarrow>
                       (case getL1Tags filteredContent of
                          Inl e \<Rightarrow> Inl e
                        | Inr l1 \<Rightarrow>
                           Inr (st\<lparr>results := Some \<lparr>data = filteredContent, overtags = ots,
                                                     undertags = uts, l1Tags = l1\<rparr>,
                                   error := None\<rparr>)))))"

text \<open>The \<open>complete\<close> callback: the \<open>try\<close> block with its \<open>catch\<close>.\<close>

definition complete :: "grid \<Rightarrow> state \<Rightarrow> state" where
  "complete dat st =
     (case tryBlock dat st of
        Inl err \<Rightarrow> st\<lparr>error := Some (ErrorProcessingFile err)\<rparr>
      | Inr st' \<Rightarrow> st')"

section \<open>Specification-side definitions\<close>

text \<open>
  The per-row contract of the mismatch extractor in the words of the specification, on a
  source cell and a destination cell that both exist.
\<close>

definition mismatchSpec :: "string \<Rightarrow> string \<Rightarrow> entry" where
  "mismatchSpec source dest =
     (if source = [] then Tags [Str dest]
      else if dest = [] then Sentinel
      else (let kept = [t \<leftarrow> js_split dest '',''. t \<notin> set (js_split source '','')]
            in if kept = [] then Sentinel else Tags [Str (join '','' kept)]))"

text \<open>The header row the specification requires.\<close>

definition expectedHeaders :: row where
  "expectedHeaders =
     [''Task Link'', ''Actioned Date'', ''All Agent Flags'', ''All QA Flags'', ''Agent'']"

text \<open>
  The tag tokens that appear in a result entry: the comma tokens of the strings it holds;
  the sentinel holds none.
\<close>

fun entryTokens :: "entry \<Rightarrow> string list" where
  "entryTokens Sentinel = []"
| "entryTokens (Tags vs) =
     concat (map (\<lambda>v. case v of Undefined \<Rightarrow> [] | Str s \<Rightarrow> js_split s '','') vs)"

text \<open>
  The part of a string before the first occurrence of a separator (the whole string when
  there is none), and the part after it (empty when there is none).
\<close>

fun beforeFirst :: "string \<Rightarrow> string \<Rightarrow> string" where
  "beforeFirst sep [] = []"
| "beforeFirst sep (c # cs) = (if prefix sep (c # cs) then [] else c # beforeFirst sep cs)"

fun afterFirst :: "string \<Rightarrow> string \<Rightarrow> string" where
  "afterFirst sep [] = []"
| "afterFirst sep (c # cs) =
     (if prefix sep (c # cs) then drop (length sep) (c # cs) else afterFirst sep cs)"

text \<open>
  The L1 tag of a flag token as the specification words it: the trimmed substring after the
  first occurrence of the delimiter.
\<close>

definition l1Claimed :: "string \<Rightarrow> string" where
  "l1Claimed tok = trim (afterFirst ''::'' tok)"

text \<open>
  The L1 tag of a flag token as a segment: the trimmed part between the first occurrence of
  the delimiter and the next one, or the end of the token.
\<close>

definition l1Segment :: "string \<Rightarrow> string" where
  "l1Segment tok = trim (beforeFirst ''::'' (afterFirst ''::'' tok))"

text \<open>
  The flag tokens of a grid that carry the delimiter: for every data row, the cells at
  index 2 and 3 that are not falsy, split on the comma.
\<close>

definition flagTokens :: "grid \<Rightarrow> string list" where
  "flagTokens content =
     [tok \<leftarrow> concat (map (\<lambda>r. concat (map (\<lambda>c. js_split c '','')
                                           (filterBoolean [cell r 2, cell r 3])))
                          (tl content)).
        js_includes tok ''::'']"

section \<open>Facts about the string primitives\<close>

lemma splitOn_not_Nil: "splitOn sep s \<noteq> []"
  by (induction sep s rule: splitOn.induct) (auto split: list.splits)

lemma splitOn_no_sep: "c \<notin> set t \<Longrightarrow> splitOn [c] t = [t]"
  by (induction t) auto

lemma splitOn_token_sep: "c \<notin> set t \<Longrightarrow> splitOn [c] (t @ c # rest) = t # splitOn [c] rest"
  by (induction t) auto

lemma splitOn_tokens_free: "t \<in> set (splitOn [c] s) \<Longrightarrow> c \<notin> set t"
proof (induction s arbitrary: t)
  case Nil
  then show ?case by simp
next
  case (Cons a s)
  then show ?case
    by (cases "splitOn [c] s") (auto split: if_splits)
qed

text \<open>Joining comma-free tokens and splitting again gives the tokens back.\<close>

lemma splitOn_join:
  "ts \<noteq> [] \<Longrightarrow> \<forall>t\<in>set ts. c \<notin> set t \<Longrightarrow> splitOn [c] (join [c] ts) = ts"
proof (induction ts)
  case Nil
  then show ?case by simp
next
  case (Cons t us)
  show ?case
  proof (cases us)
    case Nil
    then show ?thesis using Cons.prems by (simp add: splitOn_no_sep)
  next
    case (Cons u vs)
    then show ?thesis using Cons.IH Cons.prems by (simp add: splitOn_token_sep)
  qed
qed

section \<open>Facts about getMismatchedTags\<close>

text \<open>
  The loop returns the entries of the rows from \<open>i\<close> on, appended to \<open>output\<close>, unless
  one of these rows raises.
\<close>

lemma mismatchLoop_eq:
  "mismatchLoop content type i out =
     (if \<forall>r\<in>set (drop i content). \<not> isl (mismatchOfRow type r)
      then Inr (out @ map (\<lambda>r. projr (mismatchOfRow type r)) (drop i content))
      else Inl TypeError)"
proof (induction content type i out rule: mismatchLoop.induct)
  case (1 content type i out)
  show ?case
  proof (cases "i < length content")
    case False
    then show ?thesis by simp
  next
    case True
    then have d: "drop i content = content ! i # drop (Suc i) content"
      by (simp add: Cons_nth_drop_Suc)
    show ?thesis
    proof (cases "mismatchOfRow type (content ! i)")
      case (Inl e)
      then show ?thesis
        using True d by (cases e) (simp add: mismatchLoop.simps[of content type i])
    next
      case (Inr x)
      then show ?thesis
        using True d "1.IH"[OF True Inr]
        by (simp add: mismatchLoop.simps[of content type i])
    qed
  qed
qed

lemma getMismatchedTags_eq:
  "getMismatchedTags content type =
     (if \<forall>r\<in>set (tl content). \<not> isl (mismatchOfRow type r)
      then Inr (map (\<lambda>r. projr (mismatchOfRow type r)) (tl content))
      else Inl TypeError)"
  by (simp add: getMismatchedTags_def mismatchLoop_eq drop_Suc del: mismatchLoop.simps)

lemma getMismatchedTags_length:
  "getMismatchedTags content type = Inr os \<Longrightarrow> length os = length content - 1"
  by (auto simp: getMismatchedTags_eq split: if_splits)

lemma getMismatchedTags_nth:
  assumes "getMismatchedTags content type = Inr os" and "i < length os"
  shows "mismatchOfRow type (content ! Suc i) = Inr (os ! i)"
proof -
  from assms(1) have all: "\<forall>r\<in>set (tl content). \<not> isl (mismatchOfRow type r)"
    and os: "os = map (\<lambda>r. projr (mismatchOfRow type r)) (tl content)"
    by (auto simp: getMismatchedTags_eq split: if_splits)
  from os assms(2) have i: "i < length (tl content)" by simp
  then have "tl content ! i \<in> set (tl content)" by simp
  with all have "\<not> isl (mismatchOfRow type (tl content ! i))" by blast
  moreover have "tl content ! i = content ! Suc i" using i by (simp add: nth_tl)
  ultimately show ?thesis using os i by (cases "mismatchOfRow type (content ! Suc i)") auto
qed

lemma sourceIdx_less: "3 < length r \<Longrightarrow> sourceIdx type < length r"
  by (simp add: sourceIdx_def)

lemma destIdx_less: "3 < length r \<Longrightarrow> destIdx type < length r"
  by (simp add: destIdx_def)

lemma mismatchOfRow_spec:
  "3 < length r \<Longrightarrow>
   mismatchOfRow type r = Inr (mismatchSpec (r ! sourceIdx type) (r ! destIdx type))"
  by (simp add: mismatchOfRow_def mismatchSpec_def cell_def sourceIdx_less destIdx_less Let_def)

lemma mismatch_both_nonempty:
  assumes "cell r (sourceIdx type) = Str s" "cell r (destIdx type) = Str d" "s \<noteq> []" "d \<noteq> []"
  shows "mismatchOfRow type r =
           Inr (let kept = [t \<leftarrow> splitOn '','' d. t \<notin> set (splitOn '','' s)]
                in if kept = [] then Sentinel else Tags [Str (join '','' kept)])"
  using assms by (simp add: mismatchOfRow_def js_split_def Let_def)

lemma mismatch_Sentinel_cases:
  assumes "mismatchOfRow type r = Inr Sentinel"
  shows "(cell r (sourceIdx type) \<noteq> Str [] \<and> cell r (destIdx type) = Str []) \<or>
         (\<exists>s d. cell r (sourceIdx type) = Str s \<and> cell r (destIdx type) = Str d \<and>
                s \<noteq> [] \<and> d \<noteq> [] \<and> set (splitOn '','' d) \<subseteq> set (splitOn '','' s))"
  using assms
  by (auto simp: mismatchOfRow_def js_split_def Let_def filter_empty_conv
           split: if_splits jsval.splits)

lemma entryTokens_kept:
  assumes "kept = [t \<leftarrow> splitOn '','' d. t \<notin> set (splitOn '','' s)]"
  shows "set (entryTokens (if kept = [] then Sentinel else Tags [Str (join '','' kept)])) = set kept"
proof (cases "kept = []")
  case True
  then show ?thesis by simp
next
  case False
  have "\<forall>t\<in>set kept. CHR '','' \<notin> set t"
    using assms splitOn_tokens_free[of _ "CHR '',''" d] by auto
  with False have "splitOn '','' (join '','' kept) = kept"
    by (rule splitOn_join)
  with False show ?thesis by (simp add: js_split_def)
qed

section \<open>The mismatch extractor\<close>

text \<open>
  Claim C1. On a grid whose data rows all have the two flag cells, getMismatchedTags
  returns one entry per data row, in order, the header row at index 0 being skipped, and
  the entry of a row is the one the per-row contract gives for its source and destination
  cells: the singleton list of the destination cell when the source cell is the empty
  string, the sentinel when only the destination cell is the empty string, and otherwise
  the singleton list holding the comma-rejoin of the destination tokens that match no
  source token (in order, duplicates kept), or the sentinel when none is left. Emptiness
  is equality with the empty string.
\<close>

theorem mismatch_per_row_contract:
  assumes "\<forall>r\<in>set (tl content). 3 < length r"
  shows "getMismatchedTags content type =
           Inr (map (\<lambda>r. mismatchSpec (r ! sourceIdx type) (r ! destIdx type)) (tl content))"
  using assms by (simp add: getMismatchedTags_eq mismatchOfRow_spec)

theorem mismatch_per_row_contract_witness:
  "getMismatchedTags
     [expectedHeaders,
      [''url1'', ''2024-01-01'', ''Spam::L1A,Other,Other'', ''Spam::L1A'', ''agent1''],
      [''url2'', ''2024-01-02'', '''', '' '', ''agent2''],
      [''url3'', ''2024-01-03'', ''A,B'', ''B,A'', ''agent3''],
      [''url4'', ''2024-01-04'', '''', '''', ''agent4'']] Under =
   Inr [Sentinel, Tags [Str '' ''], Sentinel, Tags [Str '''']]
   \<and> mismatchSpec ''Spam::L1A'' ''Spam::L1A,Other,Other'' = Tags [Str ''Other,Other'']"
  using mismatch_per_row_contract
    [of "[expectedHeaders,
          [''url1'', ''2024-01-01'', ''Spam::L1A,Other,Other'', ''Spam::L1A'', ''agent1''],
          [''url2'', ''2024-01-02'', '''', '' '', ''agent2''],
          [''url3'', ''2024-01-03'', ''A,B'', ''B,A'', ''agent3''],
          [''url4'', ''2024-01-04'', '''', '''', ''agent4'']]" Under]
  by (simp add: mismatchSpec_def js_split_def sourceIdx_def destIdx_def expectedHeaders_def)

text \<open>
  Claim C6, as amended. For every data row of a grid on which the over-mode extraction
  returns and in which both flag cells are non-empty, every tag token of the over-mode
  entry of the row is among the row's Agent flags (cell 2) and is not among the row's QA
  flags (cell 3).
\<close>

theorem overtag_tokens_agent_not_qa:
  assumes "getMismatchedTags content Over = Inr os"
      and "i < length os"
      and "cell (content ! Suc i) 2 = Str a" and "cell (content ! Suc i) 3 = Str q"
      and "a \<noteq> []" and "q \<noteq> []"
      and "t \<in> set (entryTokens (os ! i))"
  shows "t \<in> set (js_split a '','') \<and> t \<notin> set (js_split q '','')"
proof -
  define kept where "kept = [t \<leftarrow> splitOn '','' a. t \<notin> set (splitOn '','' q)]"
  from assms(1,2) have "mismatchOfRow Over (content ! Suc i) = Inr (os ! i)"
    by (rule getMismatchedTags_nth)
  moreover have "mismatchOfRow Over (content ! Suc i) =
      Inr (if kept = [] then Sentinel else Tags [Str (join '','' kept)])"
    using mismatch_both_nonempty[of "content ! Suc i" Over q a] assms(3-6)
    by (simp add: sourceIdx_def destIdx_def kept_def Let_def)
  ultimately have "os ! i = (if kept = [] then Sentinel else Tags [Str (join '','' kept)])"
    by simp
  then have "set (entryTokens (os ! i)) = set kept"
    using entryTokens_kept[OF kept_def] by simp
  with assms(7) show ?thesis by (simp add: kept_def js_split_def)
qed

theorem overtag_tokens_agent_not_qa_witness:
  "getMismatchedTags
     [expectedHeaders, [''url1'', ''2024-01-01'', ''Spam::L1A,Other'', ''Spam::L1A'', ''agent1'']]
     Over = Inr [Tags [Str ''Other'']]
   \<and> ''Other'' \<in> set (entryTokens (Tags [Str ''Other'']))
   \<and> ''Other'' \<in> set (js_split ''Spam::L1A,Other'' '','')
   \<and> ''Other'' \<notin> set (js_split ''Spam::L1A'' '','')"
proof -
  let ?g = "[expectedHeaders,
             [''url1'', ''2024-01-01'', ''Spam::L1A,Other'', ''Spam::L1A'', ''agent1'']]"
  have g: "getMismatchedTags ?g Over = Inr [Tags [Str ''Other'']]"
    by (simp add: getMismatchedTags_def mismatchOfRow_def sourceIdx_def destIdx_def cell_def
        js_split_def expectedHeaders_def)
  have t: "''Other'' \<in> set (entryTokens (Tags [Str ''Other'']))"
    by (simp add: js_split_def)
  from overtag_tokens_agent_not_qa
         [of ?g "[Tags [Str ''Other'']]" 0 "''Spam::L1A,Other''" "''Spam::L1A''" "''Other''"] g t
  have "''Other'' \<in> set (js_split ''Spam::L1A,Other'' '','')
        \<and> ''Other'' \<notin> set (js_split ''Spam::L1A'' '','')"
    by (simp add: cell_def)
  with g t show ?thesis by blast
qed

text \<open>
  The claim as stated fails on the scenario row of the specification: the over-mode entry
  holds the token Other, which is not among the QA flags of the row.
\<close>

theorem overtag_tokens_counterexample:
  "getMismatchedTags
     [[''Task Link'', ''Actioned Date'', ''All Agent Flags'', ''All QA Flags'', ''Agent''],
      [''url1'', ''2024-01-01'', ''Spam::L1A,Other'', ''Spam::L1A'', ''agent1'']]
     Over = Inr [Tags [Str ''Other'']]
   \<and> ''Other'' \<in> set (entryTokens (Tags [Str ''Other'']))
   \<and> ''Other'' \<notin> set (js_split ''Spam::L1A'' '','')"
  by (simp add: getMismatchedTags_def mismatchOfRow_def sourceIdx_def destIdx_def cell_def
      js_split_def)

text \<open>
  Claim C7, as amended. For every data row of a grid on which both extractions return,
  whose agent-flags cell (index 2) is the empty string and whose QA-flags cell (index 3)
  is a non-empty string X, the over-mode entry is the sentinel and the under-mode entry is
  the singleton list of X.
\<close>

theorem empty_agent_cell_entries:
  assumes "getMismatchedTags content Over = Inr os"
      and "getMismatchedTags content Under = Inr us"
      and "i < length os"
      and "cell (content ! Suc i) 2 = Str []"
      and "cell (content ! Suc i) 3 = Str x" and "x \<noteq> []"
  shows "os ! i = Sentinel \<and> us ! i = Tags [Str x]"
proof -
  from assms(1,2) have "length us = length os"
    by (simp add: getMismatchedTags_length)
  with assms have o: "mismatchOfRow Over (content ! Suc i) = Inr (os ! i)"
    and u: "mismatchOfRow Under (content ! Suc i) = Inr (us ! i)"
    using getMismatchedTags_nth[of content Over os i] getMismatchedTags_nth[of content Under us i]
    by simp_all
  from o u assms(4-6) show ?thesis
    by (simp add: mismatchOfRow_def sourceIdx_def destIdx_def)
qed

theorem empty_agent_cell_entries_witness:
  "getMismatchedTags
     [expectedHeaders, [''url1'', ''2024-01-01'', '''', ''Spam'', ''agent1'']] Over = Inr [Sentinel]
   \<and> getMismatchedTags
     [expectedHeaders, [''url1'', ''2024-01-01'', '''', ''Spam'', ''agent1'']] Under
       = Inr [Tags [Str ''Spam'']]
   \<and> [Sentinel] ! 0 = Sentinel \<and> [Tags [Str ''Spam'']] ! 0 = Tags [Str ''Spam'']"
proof -
  let ?g = "[expectedHeaders, [''url1'', ''2024-01-01'', '''', ''Spam'', ''agent1'']]"
  have o: "getMismatchedTags ?g Over = Inr [Sentinel]"
    by (simp add: getMismatchedTags_def mismatchOfRow_def sourceIdx_def destIdx_def cell_def
        expectedHeaders_def)
  have u: "getMismatchedTags ?g Under = Inr [Tags [Str ''Spam'']]"
    by (simp add: getMismatchedTags_def mismatchOfRow_def sourceIdx_def destIdx_def cell_def
        expectedHeaders_def)
  from empty_agent_cell_entries[of ?g "[Sentinel]" "[Tags [Str ''Spam'']]" 0 "''Spam''"] o u
  have "[Sentinel] ! 0 = Sentinel \<and> [Tags [Str ''Spam'']] ! 0 = Tags [Str ''Spam'']"
    by (simp add: cell_def)
  with o u show ?thesis by blast
qed

text \<open>
  The claim as stated fails: with an empty agent cell and the QA cell X, the over-mode
  entry is the sentinel, not the list of X, and the under-mode entry is the list of X, not
  the sentinel.
\<close>

theorem empty_agent_cell_counterexample:
  "getMismatchedTags
     [[''Task Link'', ''Actioned Date'', ''All Agent Flags'', ''All QA Flags'', ''Agent''],
      [''url1'', ''2024-01-01'', '''', ''X'', ''agent1'']] Over = Inr [Sentinel]
   \<and> getMismatchedTags
     [[''Task Link'', ''Actioned Date'', ''All Agent Flags'', ''All QA Flags'', ''Agent''],
      [''url1'', ''2024-01-01'', '''', ''X'', ''agent1'']] Under = Inr [Tags [Str ''X'']]
   \<and> Sentinel \<noteq> Tags [Str ''X'']"
  by (simp add: getMismatchedTags_def mismatchOfRow_def sourceIdx_def destIdx_def cell_def)

text \<open>
  Claim C8. For every data row of a grid on which both extractions return: when the
  over-mode entry and the under-mode entry of the row are both the sentinel, the cells at
  index 2 and 3 are both non-empty strings and their comma tokens form the same set.
\<close>

theorem both_sentinel_symmetry:
  assumes "getMismatchedTags content Over = Inr os"
      and "getMismatchedTags content Under = Inr us"
      and "i < length os"
      and "os ! i = Sentinel" and "us ! i = Sentinel"
  shows "\<exists>a q. cell (content ! Suc i) 2 = Str a \<and> cell (content ! Suc i) 3 = Str q \<and>
               a \<noteq> [] \<and> q \<noteq> [] \<and> set (js_split a '','') = set (js_split q '','')"
proof -
  from assms(1,2) have "length us = length os"
    by (simp add: getMismatchedTags_length)
  with assms have o: "mismatchOfRow Over (content ! Suc i) = Inr Sentinel"
    and u: "mismatchOfRow Under (content ! Suc i) = Inr Sentinel"
    using getMismatchedTags_nth[of content Over os i] getMismatchedTags_nth[of content Under us i]
    by simp_all
  from mismatch_Sentinel_cases[OF o] mismatch_Sentinel_cases[OF u]
  show ?thesis
    by (auto simp: sourceIdx_def destIdx_def js_split_def)
qed

theorem both_sentinel_symmetry_witness:
  "getMismatchedTags
     [expectedHeaders, [''url1'', ''2024-01-01'', ''A,B'', ''B,A,A'', ''agent1'']] Over
       = Inr [Sentinel]
   \<and> getMismatchedTags
     [expectedHeaders, [''url1'', ''2024-01-01'', ''A,B'', ''B,A,A'', ''agent1'']] Under
       = Inr [Sentinel]
   \<and> (\<exists>a q. cell ([expectedHeaders, [''url1'', ''2024-01-01'', ''A,B'', ''B,A,A'', ''agent1'']]
                  ! Suc 0) 2 = Str a
          \<and> cell ([expectedHeaders, [''url1'', ''2024-01-01'', ''A,B'', ''B,A,A'', ''agent1'']]
                  ! Suc 0) 3 = Str q
          \<and> a \<noteq> [] \<and> q \<noteq> [] \<and> set (js_split a '','') = set (js_split q '',''))"
proof -
  let ?g = "[expectedHeaders, [''url1'', ''2024-01-01'', ''A,B'', ''B,A,A'', ''agent1'']]"
  have o: "getMismatchedTags ?g Over = Inr [Sentinel]"
    by (simp add: getMismatchedTags_def mismatchOfRow_def sourceIdx_def destIdx_def cell_def
        js_split_def expectedHeaders_def)
  have u: "getMismatchedTags ?g Under = Inr [Sentinel]"
    by (simp add: getMismatchedTags_def mismatchOfRow_def sourceIdx_def destIdx_def cell_def
        js_split_def expectedHeaders_def)
  have "\<exists>a q. cell (?g ! Suc 0) 2 = Str a \<and> cell (?g ! Suc 0) 3 = Str q \<and>
               a \<noteq> [] \<and> q \<noteq> [] \<and> set (js_split a '','') = set (js_split q '','')"
    by (rule both_sentinel_symmetry[OF o u]) simp_all
  with o u show ?thesis by blast
qed

section \<open>Facts about the header check, the row filter and the callback\<close>

lemma headersValid_iff: "headersValid headers \<longleftrightarrow> headers = expectedHeaders"
proof
  assume v: "headersValid headers"
  then have len: "length headers = 5" by (simp add: headersValid_def)
  then have "headers = [headers ! 0, headers ! 1, headers ! 2, headers ! 3, headers ! 4]"
    by (auto simp: list_eq_iff_nth_eq less_Suc_eq numeral_eq_Suc)
  moreover from v len have "headers ! 0 = ''Task Link''" "headers ! 1 = ''Actioned Date''"
    "headers ! 2 = ''All Agent Flags''" "headers ! 3 = ''All QA Flags''" "headers ! 4 = ''Agent''"
    by (simp_all add: headersValid_def cell_def)
  ultimately show "headers = expectedHeaders" by (simp add: expectedHeaders_def)
next
  assume "headers = expectedHeaders"
  then show "headersValid headers" by (simp add: headersValid_def cell_def expectedHeaders_def)
qed

lemma rowFilter_valid_header:
  "headersValid headers \<Longrightarrow> rowFilter (headers # rest) = headers # rowFilter rest"
  by (simp add: headersValid_iff expectedHeaders_def rowFilter_def cell_def)

lemma complete_invalid:
  "\<not> headersValid headers \<Longrightarrow>
   complete (headers # rest) st = st\<lparr>error := Some InvalidCsvFormat\<rparr>"
  by (simp add: complete_def tryBlock_def)

lemma complete_empty: "complete [] st = st\<lparr>error := Some (ErrorProcessingFile TypeError)\<rparr>"
  by (simp add: complete_def tryBlock_def)

lemma complete_valid:
  "headersValid headers \<Longrightarrow>
   complete (headers # rest) st =
     (case getMismatchedTags (rowFilter (headers # rest)) Over of
        Inl e \<Rightarrow> st\<lparr>error := Some (ErrorProcessingFile e)\<rparr>
      | Inr ots \<Rightarrow>
         (case getMismatchedTags (rowFilter (headers # rest)) Under of
            Inl e \<Rightarrow> st\<lparr>error := Some (ErrorProcessingFile e)\<rparr>
          | Inr uts \<Rightarrow>
             (case getL1Tags (rowFilter (headers # rest)) of
                Inl e \<Rightarrow> st\<lparr>error := Some (ErrorProcessingFile e)\<rparr>
              | Inr l1 \<Rightarrow>
                 st\<lparr>results := Some \<lparr>data = rowFilter (headers # rest), overtags = ots,
                                       undertags = uts, l1Tags = l1\<rparr>,
                    error := None\<rparr>)))"
  by (simp add: complete_def tryBlock_def Let_def split: sum.splits)

text \<open>A run that leaves no error has stored a bundle computed from the filtered grid.\<close>

lemma complete_success:
  assumes "error (complete dat st) = None"
  shows "\<exists>headers rest ots uts l1. dat = headers # rest \<and> headersValid headers \<and>
           getMismatchedTags (rowFilter dat) Over = Inr ots \<and>
           getMismatchedTags (rowFilter dat) Under = Inr uts \<and>
           getL1Tags (rowFilter dat) = Inr l1 \<and>
           complete dat st = \<lparr>results = Some \<lparr>data = rowFilter dat, overtags = ots,
                                       undertags = uts, l1Tags = l1\<rparr>, error = None\<rparr>"
proof (cases dat)
  case Nil
  with assms show ?thesis by (simp add: complete_empty)
next
  case (Cons headers rest)
  show ?thesis
  proof (cases "headersValid headers")
    case False
    with assms Cons show ?thesis by (simp add: complete_invalid)
  next
    case True
    with assms Cons show ?thesis
      by (auto simp: complete_valid split: sum.splits)
  qed
qed

text \<open>Every other run only writes the error cell.\<close>

lemma complete_failure:
  assumes "error (complete dat st) \<noteq> None"
  shows "\<exists>m. complete dat st = st\<lparr>error := Some m\<rparr>"
proof (cases dat)
  case Nil
  then show ?thesis using complete_empty[of st] by blast
next
  case (Cons headers rest)
  show ?thesis
  proof (cases "headersValid headers")
    case False
    then show ?thesis using complete_invalid[of headers rest st] Cons by blast
  next
    case True
    show ?thesis
    proof (cases "getMismatchedTags (rowFilter dat) Over")
      case (Inl e)
      then show ?thesis using complete_valid[OF True, of rest st] Cons by auto
    next
      case o: (Inr ots)
      show ?thesis
      proof (cases "getMismatchedTags (rowFilter dat) Under")
        case (Inl e)
        then show ?thesis using complete_valid[OF True, of rest st] Cons o by auto
      next
        case u: (Inr uts)
        show ?thesis
        proof (cases "getL1Tags (rowFilter dat)")
          case (Inl e)
          then show ?thesis using complete_valid[OF True, of rest st] Cons o u by auto
        next
          case (Inr l1)
          then have "error (complete dat st) = None"
            using complete_valid[OF True, of rest st] Cons o u by simp
          with assms show ?thesis by simp
        qed
      qed
    qed
  qed
qed

section \<open>Facts about getL1Tags\<close>

lemma splitOn_hd: "sep \<noteq> [] \<Longrightarrow> hd (splitOn sep s) = beforeFirst sep s"
  by (induction sep s rule: splitOn.induct) (auto simp: splitOn_not_Nil split: list.splits)

text \<open>
  A string that includes the separator splits into at least two tokens, and the second
  one is the segment after the first occurrence.
\<close>

lemma splitOn_second:
  "sep \<noteq> [] \<Longrightarrow> js_includes s sep \<Longrightarrow>
   \<exists>a rest. splitOn sep s = a # beforeFirst sep (afterFirst sep s) # rest"
proof (induction sep s rule: splitOn.induct)
  case (1 sep)
  then show ?case by simp
next
  case (2 sep c cs)
  show ?case
  proof (cases "prefix sep (c # cs)")
    case True
    obtain b rest where "splitOn sep (drop (length sep) (c # cs)) = b # rest"
      using splitOn_not_Nil[of sep "drop (length sep) (c # cs)"] by (auto simp: neq_Nil_conv)
    moreover from this have "b = beforeFirst sep (drop (length sep) (c # cs))"
      using splitOn_hd[OF "2.prems"(1), of "drop (length sep) (c # cs)"] by simp
    ultimately show ?thesis using True "2.prems"(1) by simp
  next
    case False
    with "2.prems" have "js_includes cs sep" by simp
    with "2.IH"(2) False "2.prems"(1)
    obtain a rest where "splitOn sep cs = a # beforeFirst sep (afterFirst sep cs) # rest"
      by auto
    with False show ?thesis by simp
  qed
qed

lemma l1TagOf_includes:
  "js_includes flag ''::'' \<Longrightarrow> l1TagOf flag = Inr (l1Segment flag)"
  using splitOn_second[of "''::''" flag]
  by (auto simp: l1TagOf_def js_split_def l1Segment_def)

lemma forEachFlag_eq:
  "forEachFlag flags u =
     Inr (foldl (\<lambda>u f. setAdd (l1Segment f) u) u (filter (\<lambda>f. js_includes f ''::'') flags))"
  by (induction flags arbitrary: u) (simp_all add: l1TagOf_includes)

lemma l1Loop_eq:
  "l1Loop content i u =
     Inr (foldl (\<lambda>u f. setAdd (l1Segment f) u) u
            (concat (map (\<lambda>r. filter (\<lambda>f. js_includes f ''::'') (allFlags r)) (drop i content))))"
proof (induction content i u rule: l1Loop.induct)
  case (1 content i u)
  show ?case
  proof (cases "i < length content")
    case False
    then show ?thesis by simp
  next
    case True
    then have d: "drop i content = content ! i # drop (Suc i) content"
      by (simp add: Cons_nth_drop_Suc)
    show ?thesis
      using True d "1.IH"[OF True forEachFlag_eq]
      by (simp add: l1Loop.simps[of content i] forEachFlag_eq)
  qed
qed

lemma flagTokens_eq:
  "flagTokens content =
     concat (map (\<lambda>r. filter (\<lambda>f. js_includes f ''::'') (allFlags r)) (tl content))"
  by (simp add: flagTokens_def allFlags_def filter_concat comp_def)

lemma set_foldl_setAdd:
  "set (foldl (\<lambda>u f. setAdd (g f) u) u fs) = set u \<union> g ` set fs"
  by (induction fs arbitrary: u) (auto simp: setAdd_def)

lemma distinct_foldl_setAdd:
  "distinct u \<Longrightarrow> distinct (foldl (\<lambda>u f. setAdd (g f) u) u fs)"
  by (induction fs arbitrary: u) (auto simp: setAdd_def)

lemma getL1Tags_eq:
  "getL1Tags content = Inr (sort (foldl (\<lambda>u f. setAdd (l1Segment f) u) [] (flagTokens content)))"
  by (simp add: getL1Tags_def l1Loop_eq flagTokens_eq drop_Suc del: l1Loop.simps)

section \<open>The row filter and the header validator\<close>

text \<open>
  Claim C3. The filter is meant to return exactly the rows whose QA-flags cell (index 3) is
  non-empty, and the comment on it reads "Filter out empty rows". On the grid of a file
  that ends with a line break the code does not do so: the last row is the single empty
  cell, it has no cell at index 3, the test \<open>row[3] !== ''\<close> compares \<open>undefined\<close> with the
  empty string, and the row is kept, while the row whose cell 3 is the empty string is
  dropped. The output then holds a row without a non-empty cell 3.
\<close>

theorem rowFilter_keeps_short_row:
  "rowFilter
     [[''Task Link'', ''Actioned Date'', ''All Agent Flags'', ''All QA Flags'', ''Agent''],
      [''url1'', ''2024-01-01'', ''A'', ''B'', ''agent1''],
      [''url2'', ''2024-01-02'', ''A'', '''', ''agent2''],
      ['''']]
   = [[''Task Link'', ''Actioned Date'', ''All Agent Flags'', ''All QA Flags'', ''Agent''],
      [''url1'', ''2024-01-01'', ''A'', ''B'', ''agent1''],
      ['''']]
   \<and> cell [''''] 3 = Undefined"
  by (simp add: rowFilter_def cell_def)

text \<open>
  Claim C4. The header check of a first row succeeds exactly when the row is the list of
  the five expected cells in order. The callback reports the schema error exactly when the
  first row deviates, and then it ends with the error cell set and the stored results
  untouched: nothing is computed from the grid.
\<close>

theorem header_validator_contract:
  "(headersValid headers \<longleftrightarrow> headers = expectedHeaders) \<and>
   (error (complete (headers # rest) st) = Some InvalidCsvFormat \<longleftrightarrow>
      headers \<noteq> expectedHeaders) \<and>
   (headers \<noteq> expectedHeaders \<longrightarrow>
      complete (headers # rest) st = st\<lparr>error := Some InvalidCsvFormat\<rparr> \<and>
      results (complete (headers # rest) st) = results st)"
proof -
  have a: "headersValid headers \<longleftrightarrow> headers = expectedHeaders" by (rule headersValid_iff)
  have b: "headers \<noteq> expectedHeaders \<Longrightarrow>
      complete (headers # rest) st = st\<lparr>error := Some InvalidCsvFormat\<rparr>"
    by (simp add: complete_invalid headersValid_iff)
  have c: "headers = expectedHeaders \<Longrightarrow>
      error (complete (headers # rest) st) \<noteq> Some InvalidCsvFormat"
    using complete_valid[of headers rest st]
    by (auto simp: headersValid_iff split: sum.splits)
  from a b c show ?thesis by auto
qed

theorem header_validator_contract_witness:
  "\<not> headersValid [''Task Link'', ''Actioned Date'', ''All QA Flags'', ''All Agent Flags'', ''Agent'']
   \<and> complete
       [[''Task Link'', ''Actioned Date'', ''All QA Flags'', ''All Agent Flags'', ''Agent''],
        [''url1'', ''2024-01-01'', ''A'', ''B'', ''agent1'']]
       \<lparr>results = None, error = None\<rparr>
     = \<lparr>results = None, error = Some InvalidCsvFormat\<rparr>"
  using header_validator_contract
    [of "[''Task Link'', ''Actioned Date'', ''All QA Flags'', ''All Agent Flags'', ''Agent'']"
        "[[''url1'', ''2024-01-01'', ''A'', ''B'', ''agent1'']]"
        "\<lparr>results = None, error = None\<rparr>"]
  by (simp add: expectedHeaders_def)

section \<open>The result bundle\<close>

text \<open>
  Claim C5. Every run of the callback that ends without an error has stored a bundle whose
  grid is the filtered grid and whose overtags and undertags both have one entry less than
  that grid has rows: the header row is not compared, and the entry at position i is the
  entry of the data row at position i + 1.
\<close>

theorem bundle_length_invariant:
  assumes "error (complete dat st) = None"
  shows "\<exists>b. results (complete dat st) = Some b \<and> data b = rowFilter dat \<and>
             length (overtags b) + 1 = length (data b) \<and>
             length (undertags b) + 1 = length (data b) \<and>
             (\<forall>i<length (overtags b).
                mismatchOfRow Over (data b ! Suc i) = Inr (overtags b ! i) \<and>
                mismatchOfRow Under (data b ! Suc i) = Inr (undertags b ! i))"
proof -
  from complete_success[OF assms] obtain headers rest ots uts l1 where
    dat: "dat = headers # rest" and v: "headersValid headers"
    and o: "getMismatchedTags (rowFilter dat) Over = Inr ots"
    and u: "getMismatchedTags (rowFilter dat) Under = Inr uts"
    and c: "complete dat st = \<lparr>results = Some \<lparr>data = rowFilter dat, overtags = ots,
                                       undertags = uts, l1Tags = l1\<rparr>, error = None\<rparr>"
    by blast
  from dat v have ne: "0 < length (rowFilter dat)" by (simp add: rowFilter_valid_header)
  from o u ne have len: "length ots + 1 = length (rowFilter dat)"
    "length uts + 1 = length (rowFilter dat)"
    by (simp_all add: getMismatchedTags_length)
  then have "\<forall>i<length ots. mismatchOfRow Over (rowFilter dat ! Suc i) = Inr (ots ! i) \<and>
                mismatchOfRow Under (rowFilter dat ! Suc i) = Inr (uts ! i)"
    using getMismatchedTags_nth[OF o] getMismatchedTags_nth[OF u] by simp
  with c len show ?thesis by simp
qed

theorem bundle_length_invariant_witness:
  "error (complete
            [expectedHeaders,
             [''url1'', ''2024-01-01'', ''Spam::L1A,Other'', ''Spam::L1A'', ''agent1''],
             [''url2'', ''2024-01-02'', ''A'', '''', ''agent2'']]
            \<lparr>results = None, error = None\<rparr>) = None
   \<and> (\<exists>b. results (complete
            [expectedHeaders,
             [''url1'', ''2024-01-01'', ''Spam::L1A,Other'', ''Spam::L1A'', ''agent1''],
             [''url2'', ''2024-01-02'', ''A'', '''', ''agent2'']]
            \<lparr>results = None, error = None\<rparr>) = Some b
          \<and> length (overtags b) + 1 = length (data b)
          \<and> length (undertags b) + 1 = length (data b))"
proof -
  let ?dat = "[expectedHeaders,
             [''url1'', ''2024-01-01'', ''Spam::L1A,Other'', ''Spam::L1A'', ''agent1''],
             [''url2'', ''2024-01-02'', ''A'', '''', ''agent2'']]"
  let ?st = "\<lparr>results = None, error = None\<rparr>"
  have h: "error (complete ?dat ?st) = None"
    by (simp add: complete_def tryBlock_def headersValid_def rowFilter_def cell_def
        expectedHeaders_def getMismatchedTags_def mismatchOfRow_def sourceIdx_def destIdx_def
        js_split_def getL1Tags_def allFlags_def l1TagOf_def trim_def isWhiteSpace_def setAdd_def)
  from bundle_length_invariant[OF h]
  have "\<exists>b. results (complete ?dat ?st) = Some b
          \<and> length (overtags b) + 1 = length (data b)
          \<and> length (undertags b) + 1 = length (data b)"
    by blast
  with h show ?thesis by blast
qed

text \<open>
  Claim C9. The extractors are meant to raise no error on any grid. On the grid of a file
  that ends with a line break the code does: the filter keeps the last row, the single
  empty cell, and getMismatchedTags calls \<open>split\<close> on its missing flag cells in both modes,
  where getL1Tags drops them with \<open>filter(Boolean)\<close> and returns. The callback catches the
  exception and ends with the processing error and no bundle.
\<close>

theorem getMismatchedTags_raises_on_short_row:
  "getMismatchedTags
     (rowFilter
        [[''Task Link'', ''Actioned Date'', ''All Agent Flags'', ''All QA Flags'', ''Agent''],
         [''url1'', ''2024-01-01'', ''Spam::L1A,Other'', ''Spam::L1A'', ''agent1''],
         ['''']]) Over = Inl TypeError
   \<and> getMismatchedTags
     (rowFilter
        [[''Task Link'', ''Actioned Date'', ''All Agent Flags'', ''All QA Flags'', ''Agent''],
         [''url1'', ''2024-01-01'', ''Spam::L1A,Other'', ''Spam::L1A'', ''agent1''],
         ['''']]) Under = Inl TypeError
   \<and> getL1Tags
     (rowFilter
        [[''Task Link'', ''Actioned Date'', ''All Agent Flags'', ''All QA Flags'', ''Agent''],
         [''url1'', ''2024-01-01'', ''Spam::L1A,Other'', ''Spam::L1A'', ''agent1''],
         ['''']]) = Inr [''L1A'']
   \<and> complete
     [[''Task Link'', ''Actioned Date'', ''All Agent Flags'', ''All QA Flags'', ''Agent''],
      [''url1'', ''2024-01-01'', ''Spam::L1A,Other'', ''Spam::L1A'', ''agent1''],
      ['''']] \<lparr>results = None, error = None\<rparr>
     = \<lparr>results = None, error = Some (ErrorProcessingFile TypeError)\<rparr>"
  by (simp add: complete_def tryBlock_def headersValid_def rowFilter_def cell_def
      getMismatchedTags_def mismatchOfRow_def sourceIdx_def destIdx_def js_split_def
      getL1Tags_def allFlags_def l1TagOf_def trim_def isWhiteSpace_def setAdd_def)

section \<open>The L1 tag extractor\<close>

text \<open>
  Claim C2, as amended. For every grid, getL1Tags returns without an error, and its result
  is the sorted list, without duplicates, of the set of L1 tags of the flag tokens of the
  grid: the tokens are taken from the non-falsy cells at index 2 and 3 of every data row,
  split on the comma, tokens without the delimiter contribute nothing, and the L1 tag of a
  token is the trimmed segment between the first occurrence of the delimiter and the next
  one (or the end of the token). The order is the lexicographic order of the code units.
\<close>

theorem getL1Tags_contract:
  "getL1Tags content = Inr (sorted_list_of_set (l1Segment ` set (flagTokens content))) \<and>
   (\<exists>ts. getL1Tags content = Inr ts \<and> sorted ts \<and> distinct ts \<and>
         set ts = l1Segment ` set (flagTokens content))"
proof -
  let ?u = "foldl (\<lambda>u f. setAdd (l1Segment f) u) [] (flagTokens content)"
  have s: "set ?u = l1Segment ` set (flagTokens content)" by (simp add: set_foldl_setAdd)
  have d: "distinct ?u" by (simp add: distinct_foldl_setAdd)
  have "sorted_list_of_set (set ?u) = sort ?u"
    using d by (simp add: sorted_list_of_set_sort_remdups distinct_remdups_id)
  with s d show ?thesis by (simp add: getL1Tags_eq)
qed

theorem getL1Tags_contract_witness:
  "getL1Tags
     [expectedHeaders,
      [''url1'', ''2024-01-01'', ''Spam::b,Other, X:: a '', ''spam::B,Y::a'', ''agent1'']]
   = Inr (sorted_list_of_set
       (l1Segment ` set (flagTokens
          [expectedHeaders,
           [''url1'', ''2024-01-01'', ''Spam::b,Other, X:: a '', ''spam::B,Y::a'', ''agent1'']])))
   \<and> getL1Tags
     [expectedHeaders,
      [''url1'', ''2024-01-01'', ''Spam::b,Other, X:: a '', ''spam::B,Y::a'', ''agent1'']]
   = Inr [''B'', ''a'', ''b'']"
proof -
  let ?g = "[expectedHeaders,
      [''url1'', ''2024-01-01'', ''Spam::b,Other, X:: a '', ''spam::B,Y::a'', ''agent1'']]"
  have "getL1Tags ?g = Inr [''B'', ''a'', ''b'']"
    by (simp add: getL1Tags_def allFlags_def cell_def js_split_def l1TagOf_def trim_def
        isWhiteSpace_def setAdd_def expectedHeaders_def)
  with getL1Tags_contract[of ?g] show ?thesis by simp
qed

text \<open>
  The claim as stated fails on a token with two delimiters: the substring after the first
  delimiter of A::B::C is B::C, and the extractor returns B.
\<close>

theorem getL1Tags_after_first_counterexample:
  "getL1Tags
     [[''Task Link'', ''Actioned Date'', ''All Agent Flags'', ''All QA Flags'', ''Agent''],
      [''url1'', ''2024-01-01'', ''A::B::C'', ''Other'', ''agent1'']] = Inr [''B'']
   \<and> flagTokens
     [[''Task Link'', ''Actioned Date'', ''All Agent Flags'', ''All QA Flags'', ''Agent''],
      [''url1'', ''2024-01-01'', ''A::B::C'', ''Other'', ''agent1'']] = [''A::B::C'']
   \<and> l1Claimed ''A::B::C'' = ''B::C''"
  by (simp add: getL1Tags_def allFlags_def cell_def js_split_def l1TagOf_def trim_def
      isWhiteSpace_def setAdd_def flagTokens_def l1Claimed_def)

text \<open>
  Claim C10. There is a grid on which the output of getL1Tags contains the empty string: a
  flag token whose delimiter is followed by nothing, or by white space only, contributes
  the empty string.
\<close>

theorem getL1Tags_empty_tag:
  "(\<exists>content ts. getL1Tags content = Inr ts \<and> [] \<in> set ts) \<and>
   getL1Tags
     [[''Task Link'', ''Actioned Date'', ''All Agent Flags'', ''All QA Flags'', ''Agent''],
      [''url1'', ''2024-01-01'', ''Spam::'', ''Other'', ''agent1'']] = Inr ['''']
   \<and> getL1Tags
     [[''Task Link'', ''Actioned Date'', ''All Agent Flags'', ''All QA Flags'', ''Agent''],
      [''url1'', ''2024-01-01'', ''Other'', ''Spam::  ,Abuse::L1'', ''agent1'']]
       = Inr ['''', ''L1'']"
proof -
  have a: "getL1Tags
     [[''Task Link'', ''Actioned Date'', ''All Agent Flags'', ''All QA Flags'', ''Agent''],
      [''url1'', ''2024-01-01'', ''Spam::'', ''Other'', ''agent1'']] = Inr ['''']"
    by (simp add: getL1Tags_def allFlags_def cell_def js_split_def l1TagOf_def trim_def
        isWhiteSpace_def setAdd_def)
  have b: "getL1Tags
     [[''Task Link'', ''Actioned Date'', ''All Agent Flags'', ''All QA Flags'', ''Agent''],
      [''url1'', ''2024-01-01'', ''Other'', ''Spam::  ,Abuse::L1'', ''agent1'']]
       = Inr ['''', ''L1'']"
    by (simp add: getL1Tags_def allFlags_def cell_def js_split_def l1TagOf_def trim_def
        isWhiteSpace_def setAdd_def)
  from a have "\<exists>content ts. getL1Tags content = Inr ts \<and> [] \<in> set ts"
    by (intro exI conjI, assumption) simp
  with a b show ?thesis by blast
qed

end
